theory Spec2Isabelle
  imports Main "HOL-Library.Word" "HOL-Library.Sublist"
begin

section \<open>The companion front end: the send handler of ui.js\<close>

subsection \<open>JavaScript strings and values\<close>

text \<open>
  A JavaScript string is a sequence of 16-bit code units; regular expressions without
  the \<^verbatim>\<open>u\<close> flag, \<^verbatim>\<open>trim\<close> and \<^verbatim>\<open>charCodeAt\<close> all work on code units.
  \<open>js\<close> embeds an ASCII literal.
\<close>

type_synonym jschar = "16 word"
type_synonym jsstring = "jschar list"

definition js :: "string \<Rightarrow> jsstring" where
  "js s = map (\<lambda>c. of_nat (of_char c)) s"

text \<open>
  The global \<^verbatim>\<open>humaneName\<close> is declared outside ui.js; ui.js itself tests it for
  truthiness (line 297) and assigns the string "Guest" to it (line 396), so it is
  modelled as a dynamically typed value.
\<close>

datatype jsval = JUndefined | JNull | JBool bool | JNum int | JStr jsstring

text \<open>
  \<^verbatim>\<open>String.prototype.trim\<close> strips WhiteSpace and LineTerminator code units from
  both ends: TAB, LF, VT, FF, CR, SP, NBSP, U+1680, U+2000..U+200A, U+2028, U+2029,
  U+202F, U+205F, U+3000 and U+FEFF.
\<close>

definition is_space :: "jschar \<Rightarrow> bool" where
  "is_space c =
     (c \<in> set [0x09, 0x0A, 0x0B, 0x0C, 0x0D, 0x20, 0xA0, 0x1680, 0x2028, 0x2029,
                 0x202F, 0x205F, 0x3000, 0xFEFF]
      \<or> (0x2000 \<le> c \<and> c \<le> 0x200A))"

definition trim :: "jsstring \<Rightarrow> jsstring" where
  "trim s = rev (dropWhile is_space (rev (dropWhile is_space s)))"

subsection \<open>Regular expressions and global replace\<close>

text \<open>
  The two patterns of the handler, \<^verbatim>\<open>/\d+(\.\d+)?/g\<close> and \<^verbatim>\<open>/[@#\$%\^&\*]/g\<close>, use
  character classes, sequence, the greedy \<^verbatim>\<open>?\<close> and the greedy \<^verbatim>\<open>+\<close>.
  \<open>rx_match n r s\<close> lists, in the backtracking matcher's order of preference, the
  remainders of \<open>s\<close> after each way \<open>r\<close> can match at the start of \<open>s\<close>; the first
  element is the match the engine reports. The number \<open>n\<close> bounds the iterations of
  \<^verbatim>\<open>+\<close>; \<open>rx_exec\<close> passes one more than the length of the string.
\<close>

datatype rx = Cls "jschar \<Rightarrow> bool" | Seq rx rx | Opt rx | Plus rx

fun rx_match :: "nat \<Rightarrow> rx \<Rightarrow> jsstring \<Rightarrow> jsstring list" where
  "rx_match n (Cls P) s = (case s of [] \<Rightarrow> [] | c # cs \<Rightarrow> if P c then [cs] else [])"
| "rx_match n (Seq r1 r2) s = concat (map (rx_match n r2) (rx_match n r1 s))"
| "rx_match n (Opt r) s = rx_match n r s @ [s]"
| "rx_match 0 (Plus r) s = []"
| "rx_match (Suc n) (Plus r) s =
     concat (map (\<lambda>t. rx_match n (Plus r) t @ [t]) (rx_match (Suc n) r s))"

definition rx_exec :: "rx \<Rightarrow> jsstring \<Rightarrow> jsstring option" where
  "rx_exec r s = (case rx_match (Suc (length s)) r s of [] \<Rightarrow> None | t # _ \<Rightarrow> Some t)"

text \<open>
  \<^verbatim>\<open>text.replace(r, f)\<close> with a global pattern and a replacement function: scan from
  the left; where the pattern matches, emit \<open>f\<close> of the matched text and go on after
  the match; elsewhere copy one code unit. After an empty match the scan advances by
  one code unit, as the engine does.
\<close>

function replace_g :: "rx \<Rightarrow> (jsstring \<Rightarrow> jsstring) \<Rightarrow> jsstring \<Rightarrow> jsstring" where
  "replace_g r f s =
     (case rx_exec r s of
        None \<Rightarrow> (case s of [] \<Rightarrow> [] | c # cs \<Rightarrow> c # replace_g r f cs)
      | Some t \<Rightarrow>
          if length t < length s then f (take (length s - length t) s) @ replace_g r f t
          else f [] @ (case s of [] \<Rightarrow> [] | c # cs \<Rightarrow> c # replace_g r f cs))"
  by pat_completeness auto
termination
  by (relation "measure (\<lambda>(r, f, s). length s)") auto

declare replace_g.simps [simp del]

definition is_digit :: "jschar \<Rightarrow> bool" where
  "is_digit c = (0x30 \<le> c \<and> c \<le> 0x39)"

definition is_dot :: "jschar \<Rightarrow> bool" where
  "is_dot c = (c = 0x2E)"

definition is_special :: "jschar \<Rightarrow> bool" where
  "is_special c = (c \<in> set [0x40, 0x23, 0x24, 0x25, 0x5E, 0x26, 0x2A])"

text \<open>\<^verbatim>\<open>/\d+(\.\d+)?/\<close> and \<^verbatim>\<open>/[@#\$%\^&\*]/\<close>.\<close>

definition rx_number :: rx where
  "rx_number = Seq (Plus (Cls is_digit)) (Opt (Seq (Cls is_dot) (Plus (Cls is_digit))))"

definition rx_special :: rx where
  "rx_special = Cls is_special"

subsection \<open>Numbers as text\<close>

function dec_nat :: "nat \<Rightarrow> jsstring" where
  "dec_nat n =
     (if n < 10 then [of_nat (48 + n)] else dec_nat (n div 10) @ [of_nat (48 + n mod 10)])"
  by pat_completeness auto
termination
  by (relation "measure id") auto

declare dec_nat.simps [simp del]

text \<open>
  An integral Number as a template literal or \<^verbatim>\<open>JSON.stringify\<close> prints it: in decimal
  (for magnitudes below \<open>10^21\<close>, which covers char codes and \<^verbatim>\<open>Date.now()\<close>).
\<close>

definition number_to_string :: "int \<Rightarrow> jsstring" where
  "number_to_string n = (if n < 0 then 0x2D # dec_nat (nat (- n)) else dec_nat (nat n))"

subsection \<open>The two transformations (ui.js, lines 342-349)\<close>

definition applySymbolicFloat :: "jsstring \<Rightarrow> jsstring" where
  "applySymbolicFloat text = replace_g rx_number (\<lambda>m. js ''xAt('' @ m @ js '')'') text"

text \<open>\<^verbatim>\<open>m.charCodeAt(0)\<close> is NaN on the empty string.\<close>

definition applyCharacterMapping :: "jsstring \<Rightarrow> jsstring" where
  "applyCharacterMapping text =
     replace_g rx_special
       (\<lambda>m. js ''xCh(''
             @ (case m of [] \<Rightarrow> js ''NaN'' | c # _ \<Rightarrow> number_to_string (int (unat c)))
             @ js '')'') text"

subsection \<open>The request body\<close>

text \<open>
  The object handed to \<^verbatim>\<open>JSON.stringify\<close> (line 360) has the three properties
  \<^verbatim>\<open>text\<close>, \<^verbatim>\<open>timestamp\<close> and \<^verbatim>\<open>source\<close>, in this order.
\<close>

record capsule_msg =
  msg_text :: jsstring
  msg_timestamp :: int
  msg_source :: jsstring

definition hex_digit :: "nat \<Rightarrow> jschar" where
  "hex_digit d = (if d < 10 then of_nat (48 + d) else of_nat (87 + d))"

definition unicode_escape :: "jschar \<Rightarrow> jsstring" where
  "unicode_escape c =
     [0x5C, 0x75, hex_digit (unat c div 4096), hex_digit (unat c div 256 mod 16),
      hex_digit (unat c div 16 mod 16), hex_digit (unat c mod 16)]"

definition is_lead :: "jschar \<Rightarrow> bool" where
  "is_lead c = (0xD800 \<le> c \<and> c \<le> 0xDBFF)"

definition is_trail :: "jschar \<Rightarrow> bool" where
  "is_trail c = (0xDC00 \<le> c \<and> c \<le> 0xDFFF)"

text \<open>
  QuoteJSONString: the short escapes, \<^verbatim>\<open>\uXXXX\<close> for the other control characters and
  for unpaired surrogates, every other code unit as it is.
\<close>

fun quote_units :: "jsstring \<Rightarrow> jsstring" where
  "quote_units [] = []"
| "quote_units (c # cs) =
     (if c = 0x08 then [0x5C, 0x62] @ quote_units cs
      else if c = 0x09 then [0x5C, 0x74] @ quote_units cs
      else if c = 0x0A then [0x5C, 0x6E] @ quote_units cs
      else if c = 0x0C then [0x5C, 0x66] @ quote_units cs
      else if c = 0x0D then [0x5C, 0x72] @ quote_units cs
      else if c = 0x22 then [0x5C, 0x22] @ quote_units cs
      else if c = 0x5C then [0x5C, 0x5C] @ quote_units cs
      else if c < 0x20 then unicode_escape c @ quote_units cs
      else if is_lead c then
        (case cs of
           [] \<Rightarrow> unicode_escape c
         | d # ds \<Rightarrow>
             if is_trail d then c # d # quote_units ds
             else unicode_escape c @ quote_units cs)
      else if is_trail c then unicode_escape c @ quote_units cs
      else c # quote_units cs)"

definition quote_json :: "jsstring \<Rightarrow> jsstring" where
  "quote_json s = [0x22] @ quote_units s @ [0x22]"

definition JSON_stringify :: "capsule_msg \<Rightarrow> jsstring" where
  "JSON_stringify m =
     [0x7B] @ quote_json (js ''text'') @ [0x3A] @ quote_json (msg_text m) @ [0x2C]
     @ quote_json (js ''timestamp'') @ [0x3A] @ number_to_string (msg_timestamp m) @ [0x2C]
     @ quote_json (js ''source'') @ [0x3A] @ quote_json (msg_source m) @ [0x7D]"

subsection \<open>The page and the click handler (ui.js, lines 331-368)\<close>

text \<open>
  \<^verbatim>\<open>fetch\<close> takes a body that is either a string or a buffer of bytes. The page
  state holds what the handler reads and writes: the value of the input box, the global
  \<^verbatim>\<open>humaneName\<close>, the calls of \<^verbatim>\<open>append(text, who)\<close> in order (\<^verbatim>\<open>append\<close> is defined
  outside ui.js; it adds a message to the visible chat), and the requests issued.
  \<open>now\<close> is the value of \<^verbatim>\<open>Date.now()\<close>.
\<close>

datatype body_init = BodyText jsstring | BodyBytes "8 word list"

record request =
  url :: jsstring
  http_method :: jsstring
  headers :: "(jsstring \<times> jsstring) list"
  body :: body_init

record page =
  userInput_value :: jsstring
  humaneName :: jsval
  chat :: "(jsstring \<times> jsstring) list"
  requests :: "request list"

definition append :: "jsstring \<Rightarrow> jsstring \<Rightarrow> page \<Rightarrow> page" where
  "append msg who p = p\<lparr>chat := chat p @ [(msg, who)]\<rparr>"

definition fetch :: "request \<Rightarrow> page \<Rightarrow> page" where
  "fetch r p = p\<lparr>requests := requests p @ [r]\<rparr>"

definition sendBtn_onclick :: "int \<Rightarrow> page \<Rightarrow> page" where
  "sendBtn_onclick now p =
     (let msgRaw = trim (userInput_value p) in
      if msgRaw = [] then p
      else if humaneName p = JStr (js ''Guest'') then
        append (js ''Please sign in to start your reflection.'') (js ''bapx'') p
      else
        let msgFloat = applySymbolicFloat msgRaw;
            msgMapped = applyCharacterMapping msgFloat;
            p1 = append msgRaw (js ''you'') p;
            p2 = p1\<lparr>userInput_value := []\<rparr>
        in fetch \<lparr>url = js ''/capsule'', http_method = js ''POST'',
                   headers = [(js ''Content-Type'', js ''application/json'')],
                   body = BodyText (JSON_stringify
                     \<lparr>msg_text = msgMapped, msg_timestamp = now,
                      msg_source = js ''text''\<rparr>)\<rparr> p2)"

subsection \<open>The transformations as the specification words them\<close>

text \<open>
  A number starts at a digit: the maximal run of digits, followed, when a dot and at
  least one digit come next, by the dot and the maximal run of digits after it.
  \<open>number_at s\<close> is that number and what follows it.
\<close>

definition number_at :: "jsstring \<Rightarrow> jsstring \<times> jsstring" where
  "number_at s =
     (let ds = takeWhile is_digit s; r = dropWhile is_digit s in
      case r of
        [] \<Rightarrow> (ds, r)
      | d # u \<Rightarrow>
          if is_dot d \<and> u \<noteq> [] \<and> is_digit (hd u)
          then (ds @ d # takeWhile is_digit u, dropWhile is_digit u)
          else (ds, r))"

lemma number_at_split: "number_at s = (m, rest) \<Longrightarrow> s = m @ rest"
proof -
  assume na: "number_at s = (m, rest)"
  have s: "s = takeWhile is_digit s @ dropWhile is_digit s" by simp
  show ?thesis
  proof (cases "dropWhile is_digit s")
    case Nil
    with na s show ?thesis by (simp add: number_at_def)
  next
    case (Cons d u)
    show ?thesis
    proof (cases "is_dot d \<and> u \<noteq> [] \<and> is_digit (hd u)")
      case True
      with na Cons have "m = takeWhile is_digit s @ d # takeWhile is_digit u"
        and "rest = dropWhile is_digit u"
        by (simp_all add: number_at_def)
      then have "m @ rest = takeWhile is_digit s @ d # u" by simp
      with Cons show ?thesis by (metis s)
    next
      case False
      with na Cons have "m = takeWhile is_digit s" and "rest = dropWhile is_digit s"
        by (auto simp: number_at_def)
      then show ?thesis by simp
    qed
  qed
qed

lemma number_at_rest_le:
  "number_at s = (m, rest) \<Longrightarrow> length rest \<le> length (dropWhile is_digit s)"
proof -
  assume na: "number_at s = (m, rest)"
  show ?thesis
  proof (cases "dropWhile is_digit s")
    case Nil
    with na show ?thesis by (simp add: number_at_def)
  next
    case (Cons d u)
    have u: "length (dropWhile is_digit u) \<le> length u" by (rule length_dropWhile_le)
    show ?thesis
    proof (cases "is_dot d \<and> u \<noteq> [] \<and> is_digit (hd u)")
      case True
      with na Cons have "rest = dropWhile is_digit u" by (simp add: number_at_def)
      with u Cons show ?thesis by simp
    next
      case False
      with na Cons have "rest = dropWhile is_digit s" by (auto simp: number_at_def)
      then show ?thesis by simp
    qed
  qed
qed

lemma number_at_shorter:
  assumes "number_at (c # cs) = (m, rest)" "is_digit c"
  shows "length rest < Suc (length cs)"
proof -
  have "length (dropWhile is_digit cs) \<le> length cs" by (rule length_dropWhile_le)
  then have "length (dropWhile is_digit (c # cs)) \<le> length cs"
    using assms(2) by simp
  with number_at_rest_le [OF assms(1)] show ?thesis by simp
qed

text \<open>Every number is replaced by \<^verbatim>\<open>xAt(<number>)\<close>; everything else is kept.\<close>

function symbolic_float_spec :: "jsstring \<Rightarrow> jsstring" where
  "symbolic_float_spec [] = []"
| "symbolic_float_spec (c # cs) =
     (if is_digit c
      then (case number_at (c # cs) of
              (m, rest) \<Rightarrow> js ''xAt('' @ m @ js '')'' @ symbolic_float_spec rest)
      else c # symbolic_float_spec cs)"
  by pat_completeness auto
termination
  by (relation "measure length") (auto dest: number_at_shorter [OF sym])

text \<open>Each of \<^verbatim>\<open>@ # $ % ^ & *\<close> is replaced by \<^verbatim>\<open>xCh(<char code>)\<close>.\<close>

definition character_mapping_spec :: "jsstring \<Rightarrow> jsstring" where
  "character_mapping_spec s =
     concat (map (\<lambda>c. if is_special c
                        then js ''xCh('' @ number_to_string (int (unat c)) @ js '')''
                        else [c]) s)"

section \<open>The engine documented by the README: symbol map and settings table\<close>

text \<open>
  The README describes a Python module, library.py, that is not among the sources.
  The definitions of this section are therefore written from the specification.
\<close>

type_synonym bytes = "8 word list"

definition ascii :: "string \<Rightarrow> bytes" where
  "ascii s = map (\<lambda>c. of_nat (of_char c)) s"

text \<open>The error kinds of section 7 of the specification.\<close>

datatype error = InputKind | NotFoundKind | CapacityKind | IOKind

subsection \<open>The symbol map (xCh)\<close>

text \<open>
  Modelled from the spec: the symbol map of library.py (README: \<^verbatim>\<open>bx.xCh\<close>) is
  missing. Section 3: a mapping from a byte-sequence key to an integer code,
  insertion-ordered, codes assigned sequentially from zero (or one) on first
  occurrence; section 4.1: a configurable maximum table size. The entries are kept in
  insertion order; the maximum size and the first code are parameters of the map.
\<close>

record symbol_map =
  entries :: "(bytes \<times> nat) list"
  max_size :: nat
  first_code :: nat

definition new_symbol_map :: "nat \<Rightarrow> nat \<Rightarrow> symbol_map" where
  "new_symbol_map cap base = \<lparr>entries = [], max_size = cap, first_code = base\<rparr>"

text \<open>
  Modelled from the spec: \<^verbatim>\<open>lookup_or_register\<close> of library.py is missing. Section
  4.1: a symbol seen before gets its existing code, unchanged; otherwise the next
  sequential code is assigned, stored and returned; the only failure is a full table
  (\<open>CapacityKind\<close>, section 7), which leaves the map as it was. The result is the code
  or the error, and the map after the call.
\<close>

definition lookup_or_register :: "symbol_map \<Rightarrow> bytes \<Rightarrow> (error + nat) \<times> symbol_map" where
  "lookup_or_register m s =
     (case map_of (entries m) s of
        Some c \<Rightarrow> (Inr c, m)
      | None \<Rightarrow>
          if max_size m \<le> length (entries m) then (Inl CapacityKind, m)
          else let c = first_code m + length (entries m)
               in (Inr c, m\<lparr>entries := entries m @ [(s, c)]\<rparr>))"

text \<open>
  A sequence of further calls on the same map instance, with any symbols, whatever
  each call returns.
\<close>

fun after_calls :: "symbol_map \<Rightarrow> bytes list \<Rightarrow> symbol_map" where
  "after_calls m [] = m"
| "after_calls m (s # ss) = after_calls (snd (lookup_or_register m s)) ss"

subsection \<open>The settings table (xSdb)\<close>

text \<open>
  Modelled from the spec: the settings table of library.py (README:
  \<^verbatim>\<open>bx.xSdb_update\<close>, \<^verbatim>\<open>bx.xSdb_read\<close>) is missing. Section 3: a row is a key (a byte
  sequence) with a value (an ordered sequence of byte sequences). A store is the
  sequence of its rows in file order, and the backing stores are addressed by store
  id. The length-prefixed file layout of section 6 and input/output failures are not
  modelled.
\<close>

type_synonym setting_row = "bytes \<times> bytes list"
type_synonym settings_stores = "string \<rightharpoonup> setting_row list"

text \<open>
  Modelled from the spec: the scan of \<^verbatim>\<open>update\<close> is missing. Section 4.7: scan the
  existing store and rewrite it with the matched row's value replaced, or append a new
  row if no row has the key.
\<close>

fun upsert :: "setting_row list \<Rightarrow> bytes \<Rightarrow> bytes list \<Rightarrow> setting_row list" where
  "upsert [] k v = [(k, v)]"
| "upsert ((k', v') # rows) k v =
     (if k' = k then (k, v) # rows else (k', v') # upsert rows k v)"

text \<open>
  Modelled from the spec: \<^verbatim>\<open>xSdb_update\<close> of library.py is missing. Sections 4.7
  and 7: an update of a store id that does not exist creates the store.
\<close>

definition xSdb_update ::
  "settings_stores \<Rightarrow> string \<Rightarrow> bytes \<Rightarrow> bytes list \<Rightarrow> settings_stores" where
  "xSdb_update st sid k v =
     st(sid \<mapsto> upsert (case st sid of None \<Rightarrow> [] | Some rows \<Rightarrow> rows) k v)"

text \<open>
  Modelled from the spec: \<^verbatim>\<open>xSdb_read\<close> of library.py is missing. Sections 4.7 and
  7: the rows of the store, key with value; \<open>NotFoundKind\<close> for a store id that does
  not exist. The rows are returned as they are stored, so that two rows with one key
  would show.
\<close>

definition xSdb_read :: "settings_stores \<Rightarrow> string \<Rightarrow> error + setting_row list" where
  "xSdb_read st sid = (case st sid of None \<Rightarrow> Inl NotFoundKind | Some rows \<Rightarrow> Inr rows)"

text \<open>
  The reachable states of the backing stores: any sequence of updates, to any store
  ids, from no store at all.
\<close>

fun run_updates ::
  "settings_stores \<Rightarrow> (string \<times> bytes \<times> bytes list) list \<Rightarrow> settings_stores" where
  "run_updates st [] = st"
| "run_updates st ((sid, k, v) # ops) = run_updates (xSdb_update st sid k v) ops"

definition one_row_per_key :: "settings_stores \<Rightarrow> bool" where
  "one_row_per_key st = (\<forall>sid rows. st sid = Some rows \<longrightarrow> distinct (map fst rows))"

section \<open>The send handler: what the regular expressions compute\<close>

subsection \<open>The engine on the two patterns\<close>

definition first_of :: "'a list \<Rightarrow> 'a option" where
  "first_of xs = (case xs of [] \<Rightarrow> None | x # _ \<Rightarrow> Some x)"

lemma first_of_simps [simp]:
  "first_of [] = None" "first_of (x # xs) = Some x"
  by (simp_all add: first_of_def)

lemma first_of_append:
  "first_of (xs @ ys) = (case first_of xs of None \<Rightarrow> first_of ys | Some x \<Rightarrow> Some x)"
  by (cases xs) simp_all

lemma first_of_concat_map:
  "(\<And>x. g x \<noteq> []) \<Longrightarrow>
   first_of (concat (map g xs)) = (case first_of xs of None \<Rightarrow> None | Some x \<Rightarrow> first_of (g x))"
  by (cases xs) (auto simp: first_of_append first_of_def split: option.splits list.splits)

text \<open>The greedy \<^verbatim>\<open>+\<close> on a character class takes the whole run first.\<close>

lemma plus_cls_run:
  "length s \<le> n \<Longrightarrow>
   first_of (rx_match (Suc n) (Plus (Cls P)) s) =
     (case s of [] \<Rightarrow> None | c # cs \<Rightarrow> if P c then Some (dropWhile P s) else None)"
proof (induction n arbitrary: s)
  case 0
  then show ?case by simp
next
  case (Suc n)
  show ?case
  proof (cases s)
    case Nil
    then show ?thesis by simp
  next
    case (Cons c cs)
    with Suc.prems have len: "length cs \<le> n" by simp
    show ?thesis
    proof (cases "P c")
      case False
      with Cons show ?thesis by simp
    next
      case True
      have "rx_match (Suc (Suc n)) (Plus (Cls P)) s = rx_match (Suc n) (Plus (Cls P)) cs @ [cs]"
        using Cons True by simp
      then show ?thesis
        using Suc.IH [OF len] Cons True
        by (auto simp: first_of_append split: list.splits)
    qed
  qed
qed

lemma first_Seq_Cls:
  "first_of (rx_match n (Seq (Cls P) r) s) =
     (case s of [] \<Rightarrow> None | c # cs \<Rightarrow> if P c then first_of (rx_match n r cs) else None)"
  by (simp split: list.splits)

lemma first_Opt:
  "first_of (rx_match n (Opt r) s) =
     Some (case first_of (rx_match n r s) of None \<Rightarrow> s | Some u \<Rightarrow> u)"
  by (simp add: first_of_append split: option.splits)

lemma first_Seq_Opt:
  "first_of (rx_match n (Seq r1 (Opt r2)) s) =
     (case first_of (rx_match n r1 s) of None \<Rightarrow> None
      | Some t \<Rightarrow> first_of (rx_match n (Opt r2) t))"
  unfolding rx_match.simps(2) by (rule first_of_concat_map) simp

lemma rx_exec_first: "rx_exec r s = first_of (rx_match (Suc (length s)) r s)"
  by (simp add: rx_exec_def first_of_def)

lemma rx_exec_special:
  "rx_exec rx_special s =
     (case s of [] \<Rightarrow> None | c # cs \<Rightarrow> if is_special c then Some cs else None)"
  by (cases s) (simp_all add: rx_exec_def rx_special_def)

declare rx_match.simps [simp del]

lemma first_fraction:
  assumes "length t \<le> n"
  shows "first_of (rx_match (Suc n) (Seq (Cls is_dot) (Plus (Cls is_digit))) t) =
     (case t of [] \<Rightarrow> None
      | d # u \<Rightarrow> if is_dot d \<and> u \<noteq> [] \<and> is_digit (hd u)
                 then Some (dropWhile is_digit u) else None)"
proof (cases t)
  case Nil
  then show ?thesis by (simp add: first_Seq_Cls)
next
  case (Cons d u)
  with assms have "length u \<le> n" by simp
  from plus_cls_run [OF this, of is_digit] Cons show ?thesis
    by (cases u) (simp_all add: first_Seq_Cls)
qed

text \<open>What the engine reports for the number pattern at the start of a string.\<close>

lemma rx_exec_number:
  "rx_exec rx_number s =
     (case s of [] \<Rightarrow> None | c # cs \<Rightarrow> if is_digit c then Some (snd (number_at s)) else None)"
proof (cases s)
  case Nil
  have "first_of (rx_match (Suc 0) (Plus (Cls is_digit)) []) = None"
    using plus_cls_run [of "[]" 0 is_digit] by simp
  with Nil show ?thesis
    by (simp add: rx_exec_first rx_number_def first_Seq_Opt)
next
  case (Cons c cs)
  let ?n = "length s"
  let ?r = "dropWhile is_digit s"
  have run: "first_of (rx_match (Suc ?n) (Plus (Cls is_digit)) s) =
      (if is_digit c then Some ?r else None)"
    using plus_cls_run [of s ?n is_digit] Cons by simp
  show ?thesis
  proof (cases "is_digit c")
    case False
    with run Cons show ?thesis
      by (simp add: rx_exec_first rx_number_def first_Seq_Opt)
  next
    case True
    have len: "length ?r \<le> ?n" by (rule length_dropWhile_le)
    have "rx_exec rx_number s =
        Some (case first_of (rx_match (Suc ?n) (Seq (Cls is_dot) (Plus (Cls is_digit))) ?r) of
                None \<Rightarrow> ?r | Some u \<Rightarrow> u)"
      using run True
      by (simp add: rx_exec_first rx_number_def first_Seq_Opt first_Opt)
    also have "\<dots> = Some (snd (number_at s))"
      unfolding first_fraction [OF len]
      by (cases ?r) (simp_all add: number_at_def Let_def del: dropWhile_eq_Nil_conv)
    finally show ?thesis using Cons True by simp
  qed
qed

subsection \<open>Global replace, one step at a time\<close>

lemma replace_g_Nil: "rx_exec r [] = None \<Longrightarrow> replace_g r f [] = []"
  by (subst replace_g.simps) (simp only: option.case list.case)

lemma replace_g_skip:
  "rx_exec r (c # cs) = None \<Longrightarrow> replace_g r f (c # cs) = c # replace_g r f cs"
  by (subst replace_g.simps) (simp only: option.case list.case)

lemma replace_g_hit:
  "rx_exec r (m @ t) = Some t \<Longrightarrow> m \<noteq> [] \<Longrightarrow>
   replace_g r f (m @ t) = f m @ replace_g r f t"
  by (subst replace_g.simps) simp

lemma applySymbolicFloat_spec: "applySymbolicFloat s = symbolic_float_spec s"
proof (induction s rule: symbolic_float_spec.induct)
  case 1
  have "rx_exec rx_number [] = None" by (simp add: rx_exec_number)
  then show ?case
    by (simp add: applySymbolicFloat_def replace_g_Nil)
next
  case (2 c cs)
  show ?case
  proof (cases "is_digit c")
    case False
    then have "rx_exec rx_number (c # cs) = None" by (simp add: rx_exec_number)
    then have "applySymbolicFloat (c # cs) = c # applySymbolicFloat cs"
      by (simp add: applySymbolicFloat_def replace_g_skip)
    with False "2.IH"(2) show ?thesis by simp
  next
    case True
    obtain m rest where na: "number_at (c # cs) = (m, rest)" by (cases "number_at (c # cs)")
    have split: "c # cs = m @ rest" using na by (rule number_at_split)
    have "length rest < length (c # cs)" using number_at_shorter [OF na True] by simp
    with split have ne: "m \<noteq> []" by auto
    have "rx_exec rx_number (c # cs) = Some rest" by (simp add: rx_exec_number True na)
    with split have "rx_exec rx_number (m @ rest) = Some rest" by metis
    from replace_g_hit [OF this ne]
    have "applySymbolicFloat (m @ rest) = js ''xAt('' @ m @ js '')'' @ applySymbolicFloat rest"
      by (simp add: applySymbolicFloat_def)
    with split
    have "applySymbolicFloat (c # cs) = js ''xAt('' @ m @ js '')'' @ applySymbolicFloat rest"
      by metis
    moreover have "applySymbolicFloat rest = symbolic_float_spec rest"
      using "2.IH"(1) [OF True na [symmetric]] .
    ultimately show ?thesis using True na by simp
  qed
qed

lemma applyCharacterMapping_spec: "applyCharacterMapping s = character_mapping_spec s"
proof (induction s)
  case Nil
  have "rx_exec rx_special [] = None" by (simp add: rx_exec_special)
  then show ?case
    by (simp add: applyCharacterMapping_def character_mapping_spec_def replace_g_Nil)
next
  case (Cons c cs)
  show ?case
  proof (cases "is_special c")
    case False
    then have "rx_exec rx_special (c # cs) = None" by (simp add: rx_exec_special)
    with False Cons show ?thesis
      by (simp add: applyCharacterMapping_def character_mapping_spec_def replace_g_skip)
  next
    case True
    then have "rx_exec rx_special ([c] @ cs) = Some cs" by (simp add: rx_exec_special)
    from replace_g_hit [OF this] True Cons show ?thesis
      by (simp add: applyCharacterMapping_def character_mapping_spec_def)
  qed
qed

section \<open>The send handler: claims\<close>

text \<open>
  Claim C9. For every message that trims to a non-empty string, sent by a user whose
  \<^verbatim>\<open>humaneName\<close> is not "Guest": the handler appends the trimmed, untransformed
  message to the chat as "you", clears the input box, and issues one POST to
  \<^verbatim>\<open>/capsule\<close> whose JSON body carries, as \<^verbatim>\<open>text\<close>, the message in which first every
  number (a maximal run of digits with an optional decimal fraction) is replaced by
  \<^verbatim>\<open>xAt(<number>)\<close> and then every one of \<^verbatim>\<open>@ # $ % ^ & *\<close> by \<^verbatim>\<open>xCh(<char code>)\<close>,
  together with the timestamp and the source "text". The handler computes the text
  with the regular-expression engine; the statement describes it without one.
\<close>

theorem send_posts_transformed_message:
  assumes "trim (userInput_value p) \<noteq> []"
    and "humaneName p \<noteq> JStr (js ''Guest'')"
  shows "sendBtn_onclick now p =
     p\<lparr>userInput_value := [],
       chat := chat p @ [(trim (userInput_value p), js ''you'')],
       requests := requests p @
         [\<lparr>url = js ''/capsule'', http_method = js ''POST'',
           headers = [(js ''Content-Type'', js ''application/json'')],
           body = BodyText (JSON_stringify
             \<lparr>msg_text = character_mapping_spec
                           (symbolic_float_spec (trim (userInput_value p))),
              msg_timestamp = now, msg_source = js ''text''\<rparr>)\<rparr>]\<rparr>"
  using assms
  by (simp add: sendBtn_onclick_def Let_def append_def fetch_def
      applySymbolicFloat_spec applyCharacterMapping_spec)

theorem send_posts_transformed_message_witness:
  \<open>trim (js ''  pay 12.50 @ 9  '') \<noteq> [] \<and> JStr (js ''alice'') \<noteq> JStr (js ''Guest'') \<and>
   sendBtn_onclick 1700000000000
     \<lparr>userInput_value = js ''  pay 12.50 @ 9  '', humaneName = JStr (js ''alice''),
      chat = [], requests = []\<rparr> =
     \<lparr>userInput_value = [], humaneName = JStr (js ''alice''),
      chat = [(js ''pay 12.50 @ 9'', js ''you'')],
      requests =
        [\<lparr>url = js ''/capsule'', http_method = js ''POST'',
          headers = [(js ''Content-Type'', js ''application/json'')],
          body = BodyText (js
            ''{"text":"pay xAt(12.50) xCh(64) xAt(9)","timestamp":1700000000000,"source":"text"}'')\<rparr>]\<rparr>\<close>
proof -
  let ?p = "\<lparr>userInput_value = js ''  pay 12.50 @ 9  '', humaneName = JStr (js ''alice''),
             chat = [], requests = []\<rparr>"
  have t: "trim (userInput_value ?p) = js ''pay 12.50 @ 9''"
    by (simp add: trim_def js_def is_space_def)
  have t': "trim (js ''  pay 12.50 @ 9  '') \<noteq> []"
    by (simp add: trim_def js_def is_space_def)
  have g: "humaneName ?p \<noteq> JStr (js ''Guest'')"
    by (simp add: js_def)
  have tr: "character_mapping_spec (symbolic_float_spec (js ''pay 12.50 @ 9''))
      = js ''pay xAt(12.50) xCh(64) xAt(9)''"
    by code_simp
  have q: \<open>JSON_stringify \<lparr>msg_text = js ''pay xAt(12.50) xCh(64) xAt(9)'',
        msg_timestamp = 1700000000000, msg_source = js ''text''\<rparr>
      = js ''{"text":"pay xAt(12.50) xCh(64) xAt(9)","timestamp":1700000000000,"source":"text"}''\<close>
    by (simp add: JSON_stringify_def quote_json_def number_to_string_def dec_nat.simps
        js_def is_lead_def is_trail_def)
  from send_posts_transformed_message [of ?p 1700000000000] t t' g
  have "sendBtn_onclick 1700000000000 ?p =
     ?p\<lparr>userInput_value := [],
        chat := chat ?p @ [(js ''pay 12.50 @ 9'', js ''you'')],
        requests := requests ?p @
         [\<lparr>url = js ''/capsule'', http_method = js ''POST'',
           headers = [(js ''Content-Type'', js ''application/json'')],
           body = BodyText (JSON_stringify
             \<lparr>msg_text = character_mapping_spec (symbolic_float_spec (js ''pay 12.50 @ 9'')),
              msg_timestamp = 1700000000000, msg_source = js ''text''\<rparr>)\<rparr>]\<rparr>"
    by simp
  then show ?thesis
    unfolding tr q using t' g by simp
qed

text \<open>
  Claim C10. When the input box trims to the empty string the handler returns at once:
  nothing is appended, nothing is posted, the page is unchanged. Otherwise, when
  \<^verbatim>\<open>humaneName\<close> is the string "Guest", it appends only the sign-in prompt (as "bapx")
  and returns: no request, and the input box keeps its value. A request is issued
  exactly when the message trims to a non-empty string and \<^verbatim>\<open>humaneName\<close> is not
  "Guest". The two guards are read in the order of the code: the empty message is
  tested first.
\<close>

theorem send_guard:
  "(trim (userInput_value p) = [] \<longrightarrow> sendBtn_onclick now p = p) \<and>
   (trim (userInput_value p) \<noteq> [] \<and> humaneName p = JStr (js ''Guest'') \<longrightarrow>
      sendBtn_onclick now p =
        p\<lparr>chat := chat p @
             [(js ''Please sign in to start your reflection.'', js ''bapx'')]\<rparr>) \<and>
   (requests (sendBtn_onclick now p) \<noteq> requests p \<longleftrightarrow>
      trim (userInput_value p) \<noteq> [] \<and> humaneName p \<noteq> JStr (js ''Guest''))"
  by (simp add: sendBtn_onclick_def Let_def append_def fetch_def)

theorem send_guard_witness:
  "sendBtn_onclick 7
     \<lparr>userInput_value = js ''   '', humaneName = JStr (js ''alice''),
      chat = [], requests = []\<rparr>
     = \<lparr>userInput_value = js ''   '', humaneName = JStr (js ''alice''),
        chat = [], requests = []\<rparr> \<and>
   sendBtn_onclick 7
     \<lparr>userInput_value = js '' hi '', humaneName = JStr (js ''Guest''),
      chat = [], requests = []\<rparr>
     = \<lparr>userInput_value = js '' hi '', humaneName = JStr (js ''Guest''),
        chat = [(js ''Please sign in to start your reflection.'', js ''bapx'')],
        requests = []\<rparr> \<and>
   requests (sendBtn_onclick 7
     \<lparr>userInput_value = js '' hi '', humaneName = JUndefined,
      chat = [], requests = []\<rparr>) \<noteq> []"
  using
    send_guard [of "\<lparr>userInput_value = js ''   '', humaneName = JStr (js ''alice''),
                      chat = [], requests = []\<rparr>" 7]
    send_guard [of "\<lparr>userInput_value = js '' hi '', humaneName = JStr (js ''Guest''),
                      chat = [], requests = []\<rparr>" 7]
    send_guard [of "\<lparr>userInput_value = js '' hi '', humaneName = JUndefined,
                      chat = [], requests = []\<rparr>" 7]
  by (simp add: trim_def js_def is_space_def)

section \<open>The symbol map: codes are stable\<close>

lemma register_extends:
  "prefix (entries m) (entries (snd (lookup_or_register m s)))"
  by (simp add: lookup_or_register_def Let_def split: option.splits)

lemma after_calls_extends: "prefix (entries m) (entries (after_calls m ss))"
proof (induction ss arbitrary: m)
  case Nil
  show ?case by simp
next
  case (Cons s ss)
  have "prefix (entries m) (entries (snd (lookup_or_register m s)))"
    by (rule register_extends)
  also have "prefix \<dots> (entries (after_calls (snd (lookup_or_register m s)) ss))"
    by (rule Cons.IH)
  finally show ?case by simp
qed

lemma prefix_keeps_code:
  assumes "prefix xs ys" and "map_of xs k = Some v"
  shows "map_of ys k = Some v"
proof -
  from assms(1) obtain zs where "ys = xs @ zs" by (auto simp: prefix_def)
  with assms(2) show ?thesis by (simp add: map_add_Some_iff)
qed

lemma registered_code:
  "lookup_or_register m s = (Inr c, m1) \<Longrightarrow> map_of (entries m1) s = Some c"
  by (auto simp: lookup_or_register_def Let_def map_add_def split: option.splits if_splits)

lemma known_symbol:
  "map_of (entries m) s = Some c \<Longrightarrow> lookup_or_register m s = (Inr c, m)"
  by (simp add: lookup_or_register_def)

text \<open>
  Claim C2. Once \<open>lookup_or_register\<close> has returned the code \<open>c\<close> for the symbol \<open>s\<close>,
  every later call with \<open>s\<close> on the same map returns \<open>c\<close> and leaves the map as it is,
  whatever calls, with whatever symbols, came in between; the entries of the map are
  only ever extended at the end (none removed, the map never shrinks), and every
  symbol keeps the code it had.
\<close>

theorem code_is_stable:
  assumes "lookup_or_register m s = (Inr c, m1)"
  shows "lookup_or_register (after_calls m1 ss) s = (Inr c, after_calls m1 ss) \<and>
         prefix (entries m) (entries (after_calls m1 ss)) \<and>
         length (entries m) \<le> length (entries (after_calls m1 ss)) \<and>
         (\<forall>k v. map_of (entries m) k = Some v \<longrightarrow>
                map_of (entries (after_calls m1 ss)) k = Some v)"
proof -
  let ?m2 = "after_calls m1 ss"
  have "m1 = snd (lookup_or_register m s)" using assms by simp
  then have "prefix (entries m) (entries m1)" by (simp add: register_extends)
  moreover have ext: "prefix (entries m1) (entries ?m2)" by (rule after_calls_extends)
  ultimately have grow: "prefix (entries m) (entries ?m2)" by (rule prefix_order.trans)
  have "map_of (entries m1) s = Some c" using assms by (rule registered_code)
  with ext have "map_of (entries ?m2) s = Some c" by (rule prefix_keeps_code)
  then have "lookup_or_register ?m2 s = (Inr c, ?m2)" by (rule known_symbol)
  moreover have "length (entries m) \<le> length (entries ?m2)"
    using grow by (rule prefix_length_le)
  moreover have "\<forall>k v. map_of (entries m) k = Some v \<longrightarrow> map_of (entries ?m2) k = Some v"
    using grow by (blast intro: prefix_keeps_code)
  ultimately show ?thesis using grow by simp
qed

theorem code_is_stable_witness:
  "lookup_or_register (new_symbol_map 2 0) (ascii ''A'') =
     (Inr 0, \<lparr>entries = [(ascii ''A'', 0)], max_size = 2, first_code = 0\<rparr>) \<and>
   after_calls \<lparr>entries = [(ascii ''A'', 0)], max_size = 2, first_code = 0\<rparr>
       [ascii ''B'', ascii ''C'', ascii ''A''] =
     \<lparr>entries = [(ascii ''A'', 0), (ascii ''B'', 1)], max_size = 2, first_code = 0\<rparr> \<and>
   lookup_or_register
     \<lparr>entries = [(ascii ''A'', 0), (ascii ''B'', 1)], max_size = 2, first_code = 0\<rparr>
     (ascii ''A'') =
     (Inr 0, \<lparr>entries = [(ascii ''A'', 0), (ascii ''B'', 1)], max_size = 2, first_code = 0\<rparr>)"
proof -
  have a: "lookup_or_register (new_symbol_map 2 0) (ascii ''A'') =
     (Inr 0, \<lparr>entries = [(ascii ''A'', 0)], max_size = 2, first_code = 0\<rparr>)"
    by (simp add: lookup_or_register_def new_symbol_map_def ascii_def)
  have b: "after_calls \<lparr>entries = [(ascii ''A'', 0)], max_size = 2, first_code = 0\<rparr>
       [ascii ''B'', ascii ''C'', ascii ''A''] =
     \<lparr>entries = [(ascii ''A'', 0), (ascii ''B'', 1)], max_size = 2, first_code = 0\<rparr>"
    by (simp add: lookup_or_register_def ascii_def)
  from code_is_stable [OF a, of "[ascii ''B'', ascii ''C'', ascii ''A'']"] a b
  show ?thesis by simp
qed

section \<open>The settings table: one row per key\<close>

lemma keys_upsert: "set (map fst (upsert rows k v)) = insert k (set (map fst rows))"
proof (induction rows)
  case Nil
  show ?case by simp
next
  case (Cons r rows)
  obtain k' v' where r: "r = (k', v')" by (cases r)
  show ?case
  proof (cases "k' = k")
    case True
    with r show ?thesis by simp
  next
    case False
    with r Cons.IH show ?thesis by (simp add: insert_commute)
  qed
qed

lemma distinct_upsert:
  "distinct (map fst rows) \<Longrightarrow> distinct (map fst (upsert rows k v))"
proof (induction rows)
  case Nil
  show ?case by simp
next
  case (Cons r rows)
  obtain k' v' where r: "r = (k', v')" by (cases r)
  show ?case
  proof (cases "k' = k")
    case True
    with Cons.prems r show ?thesis by simp
  next
    case False
    from Cons.prems r have "k' \<notin> set (map fst rows)" and "distinct (map fst rows)" by simp_all
    with False have "k' \<notin> set (map fst (upsert rows k v))"
      by (simp only: keys_upsert) simp
    with Cons.IH \<open>distinct (map fst rows)\<close> False r show ?thesis by simp
  qed
qed

lemma filter_absent: "k \<notin> set (map fst rows) \<Longrightarrow> filter (\<lambda>r. fst r = k) rows = []"
  by (induction rows) auto

lemma filter_upsert:
  "distinct (map fst rows) \<Longrightarrow> filter (\<lambda>r. fst r = k) (upsert rows k v) = [(k, v)]"
proof (induction rows)
  case Nil
  show ?case by simp
next
  case (Cons r rows)
  obtain k' v' where r: "r = (k', v')" by (cases r)
  show ?case
  proof (cases "k' = k")
    case True
    with Cons.prems r have "k \<notin> set (map fst rows)" by simp
    then have "filter (\<lambda>r. fst r = k) rows = []" by (rule filter_absent)
    with True r show ?thesis by simp
  next
    case False
    with Cons r show ?thesis by simp
  qed
qed

lemma update_keeps_invariant:
  "one_row_per_key st \<Longrightarrow> one_row_per_key (xSdb_update st sid k v)"
  unfolding one_row_per_key_def xSdb_update_def
  by (auto simp: distinct_upsert split: option.splits)

lemma run_updates_invariant:
  "one_row_per_key st \<Longrightarrow> one_row_per_key (run_updates st ops)"
  by (induction st ops rule: run_updates.induct) (simp_all add: update_keeps_invariant)

lemma empty_invariant: "one_row_per_key Map.empty"
  by (simp add: one_row_per_key_def)

text \<open>
  Claim C6. In every reachable state of the settings stores: after an update of key
  \<open>k\<close> to \<open>v1\<close> followed by an update of \<open>k\<close> to \<open>v2\<close>, reading the store gives exactly
  one row for \<open>k\<close>, and its value is \<open>v2\<close>; and reading any store never gives two rows
  with the same key.
\<close>

theorem settings_one_row_per_key:
  "(\<exists>rows. xSdb_read (xSdb_update (xSdb_update (run_updates Map.empty ops) sid k v1) sid k v2) sid
             = Inr rows \<and>
           filter (\<lambda>r. fst r = k) rows = [(k, v2)]) \<and>
   (\<forall>sid' rows. xSdb_read (run_updates Map.empty ops) sid' = Inr rows \<longrightarrow>
                 distinct (map fst rows))"
proof -
  let ?st = "run_updates Map.empty ops"
  let ?st1 = "xSdb_update ?st sid k v1"
  have inv: "one_row_per_key ?st" by (rule run_updates_invariant) (rule empty_invariant)
  then have inv1: "one_row_per_key ?st1" by (rule update_keeps_invariant)
  obtain rows1 where rows1: "?st1 sid = Some rows1" by (simp add: xSdb_update_def)
  with inv1 have d1: "distinct (map fst rows1)" by (auto simp: one_row_per_key_def)
  have "xSdb_read (xSdb_update ?st1 sid k v2) sid = Inr (upsert rows1 k v2)"
    using rows1 by (simp add: xSdb_read_def xSdb_update_def)
  moreover have "filter (\<lambda>r. fst r = k) (upsert rows1 k v2) = [(k, v2)]"
    using d1 by (rule filter_upsert)
  moreover have "\<forall>sid' rows. xSdb_read ?st sid' = Inr rows \<longrightarrow> distinct (map fst rows)"
    using inv by (auto simp: one_row_per_key_def xSdb_read_def split: option.splits)
  ultimately show ?thesis by simp
qed

theorem settings_one_row_per_key_witness:
  "xSdb_read (xSdb_update (xSdb_update
       (run_updates Map.empty [(''creator'', ascii ''lang'', [ascii ''en''])])
       ''creator'' (ascii ''theme'') [ascii ''dark''])
       ''creator'' (ascii ''theme'') [ascii ''light'']) ''creator''
     = Inr [(ascii ''lang'', [ascii ''en'']), (ascii ''theme'', [ascii ''light''])] \<and>
   filter (\<lambda>r. fst r = ascii ''theme'')
     [(ascii ''lang'', [ascii ''en'']), (ascii ''theme'', [ascii ''light''])]
     = [(ascii ''theme'', [ascii ''light''])] \<and>
   xSdb_read (run_updates Map.empty [(''creator'', ascii ''lang'', [ascii ''en''])]) ''creator''
     = Inr [(ascii ''lang'', [ascii ''en''])] \<and>
   distinct (map fst [(ascii ''lang'', [ascii ''en''])])"
  using settings_one_row_per_key
    [of "[(''creator'', ascii ''lang'', [ascii ''en''])]" "''creator''" "ascii ''theme''"
        "[ascii ''dark'']" "[ascii ''light'']"]
  by (simp add: xSdb_read_def xSdb_update_def ascii_def)

end
